theory Spec2Isabelle
  imports Complex_Main "HOL-Library.Multiset" "HOL-Library.Product_Lexorder"
begin

section \<open>Job matching: a shallow embedding of job\_match\_two.py\<close>

text \<open>
  The development follows the Python module function by function. Python strings are
  \<^typ>\<open>string\<close> over ASCII text, Python sets are HOL sets (finite wherever a claim needs
  their size), the rows that sqlite hands back as dictionaries are records, and exceptions
  are values of a sum type. The match percentage is a Python float. It is modelled twice:
  \<open>match_skills\<close> computes it in exact rational arithmetic (\<^typ>\<open>rat\<close>), which is what the
  pipeline below carries, and \<open>match_skills_float\<close> rounds the quotient and the product to
  the nearest binary64 number, as the interpreter does.
\<close>

subsection \<open>String primitives\<close>

text \<open>
  \<open>str.isspace\<close> on one ASCII character: Python strips the code points 9 to 13 and 28 to
  32. Characters from 128 on are outside the modelled alphabet; they count as non-space
  and \<open>lower\<close> leaves them alone.
\<close>

definition isspace :: "char \<Rightarrow> bool" where
  "isspace c = (let n = of_char c :: nat in (9 \<le> n \<and> n \<le> 13) \<or> (28 \<le> n \<and> n \<le> 32))"

definition lower_char :: "char \<Rightarrow> char" where
  "lower_char c =
     (let n = of_char c :: nat in if 65 \<le> n \<and> n \<le> 90 then char_of (n + 32) else c)"

text \<open>\<open>s.lower()\<close>\<close>

definition lower :: "string \<Rightarrow> string" where
  "lower s = map lower_char s"

text \<open>\<open>s.strip()\<close>: leading and trailing whitespace removed.\<close>

definition strip :: "string \<Rightarrow> string" where
  "strip s = rev (dropWhile isspace (rev (dropWhile isspace s)))"

text \<open>
  \<open>s.split(sep)\<close> for a one-character separator: one more piece than there are
  separators, so the empty string splits into one empty piece.
\<close>

fun str_split :: "char \<Rightarrow> string \<Rightarrow> string list" where
  "str_split sep [] = [[]]"
| "str_split sep (c # cs) =
     (if c = sep then [] # str_split sep cs
      else (case str_split sep cs of [] \<Rightarrow> [[c]] | w # ws \<Rightarrow> (c # w) # ws))"

text \<open>\<open>sep.join(xs)\<close>\<close>

fun str_join :: "char \<Rightarrow> string list \<Rightarrow> string" where
  "str_join sep [] = []"
| "str_join sep [x] = x"
| "str_join sep (x # y # ys) = x @ sep # str_join sep (y # ys)"

subsection \<open>The entity classes\<close>

text \<open>
  The attributes \<open>id\<close>, \<open>name\<close>, \<open>skills\<close> of class \<open>JobSeeker\<close> and \<open>id\<close>, \<open>title\<close>,
  \<open>required_skills\<close> of class \<open>Job\<close> carry the class name as a prefix, since record
  fields are global constants.
\<close>

record JobSeeker =
  JobSeeker_id :: int
  JobSeeker_name :: string
  JobSeeker_skills :: "string set"

record Job =
  Job_id :: int
  Job_title :: string
  Job_required_skills :: "string set"

text \<open>\<open>JobSeeker.__init__\<close>\<close>

definition JobSeeker_init :: "int \<Rightarrow> string \<Rightarrow> string \<Rightarrow> JobSeeker" where
  "JobSeeker_init ident name skills =
     \<lparr>JobSeeker_id = ident, JobSeeker_name = name,
      JobSeeker_skills = set (map (\<lambda>skill. lower (strip skill)) (str_split CHR '','' skills))\<rparr>"

text \<open>\<open>Job.__init__\<close>\<close>

definition Job_init :: "int \<Rightarrow> string \<Rightarrow> string \<Rightarrow> Job" where
  "Job_init ident title required_skills =
     \<lparr>Job_id = ident, Job_title = title,
      Job_required_skills =
        set (map (\<lambda>skill. lower (strip skill)) (str_split CHR '','' required_skills))\<rparr>"

subsection \<open>The store\<close>

text \<open>
  A row of table \<open>jobseekers(id, name, skills)\<close> and of table
  \<open>jobs(id, title, required_skills)\<close>, as the dictionaries built from \<open>sqlite3.Row\<close>:
  the keys \<open>id\<close>, \<open>name\<close>, \<open>skills\<close> of a jobseeker row are the fields \<open>seeker_id\<close>,
  \<open>seeker_name\<close>, \<open>seeker_skills\<close>, and the keys \<open>id\<close>, \<open>title\<close>, \<open>required_skills\<close> of a
  job row are \<open>jobrow_id\<close>, \<open>jobrow_title\<close>, \<open>jobrow_required_skills\<close>. Both id columns are
  \<open>INTEGER PRIMARY KEY\<close>. The connection is the content of the two tables, in the order
  \<open>SELECT\<close> returns it.
\<close>

record jobseeker_row =
  seeker_id :: int
  seeker_name :: string
  seeker_skills :: string

record job_row =
  jobrow_id :: int
  jobrow_title :: string
  jobrow_required_skills :: string

record conn =
  jobseekers_table :: "jobseeker_row list"
  jobs_table :: "job_row list"

datatype py_error = ZeroDivisionError

text \<open>
  The tuples \<open>insert_data\<close> binds to the two \<open>INSERT\<close> statements. Iterating a Python set
  visits its elements once each in an order the language leaves open; the parameter
  \<open>iter\<close> is that order.
\<close>

definition jobseeker_tuple :: "(string set \<Rightarrow> string list) \<Rightarrow> JobSeeker \<Rightarrow> jobseeker_row" where
  "jobseeker_tuple iter js =
     \<lparr>seeker_id = JobSeeker_id js, seeker_name = JobSeeker_name js,
      seeker_skills = str_join CHR '','' (iter (JobSeeker_skills js))\<rparr>"

definition job_tuple :: "(string set \<Rightarrow> string list) \<Rightarrow> Job \<Rightarrow> job_row" where
  "job_tuple iter job =
     \<lparr>jobrow_id = Job_id job, jobrow_title = Job_title job,
      jobrow_required_skills = str_join CHR '','' (iter (Job_required_skills job))\<rparr>"

subsection \<open>Scoring\<close>

text \<open>
  Python's \<open>a / b\<close> on two lengths, as the exact quotient: it raises when the divisor is
  zero.
\<close>

definition truediv :: "nat \<Rightarrow> nat \<Rightarrow> py_error + rat" where
  "truediv a b = (if b = 0 then Inl ZeroDivisionError else Inr (of_nat a / of_nat b))"

text \<open>
  \<open>match_skills\<close>, in exact arithmetic. The conditional expression tests
  \<open>total_required_skills > 0\<close> first and evaluates the quotient only in the true branch.
\<close>

definition match_skills :: "'a set \<Rightarrow> 'a set \<Rightarrow> py_error + (nat \<times> rat)" where
  "match_skills js_skills job_skills =
     (let matching_skills = js_skills \<inter> job_skills;
          match_count = card matching_skills;
          total_required_skills = card job_skills
      in if total_required_skills > 0
         then (case truediv match_count total_required_skills of
                 Inl e \<Rightarrow> Inl e
               | Inr q \<Rightarrow> Inr (match_count, q * 100))
         else Inr (match_count, 0))"

subsection \<open>Scoring in binary64\<close>

text \<open>
  A Python float is an IEEE 754 binary64 number, a rational with a 53-bit significand, and
  every float operation returns the exact result rounded to the nearest such number, ties
  to the even significand. \<open>bit_length\<close> is \<open>int.bit_length\<close>; \<open>expo x\<close> is the exponent \<open>e\<close>
  with \<open>2 ^ e \<le> x < 2 ^ (e + 1)\<close> of a positive rational; below \<open>2 ^ -1022\<close> the spacing
  of the subnormal numbers stays at \<open>2 ^ -1074\<close>. Overflow to infinity is not modelled: no
  value rounded below exceeds 100.
\<close>

function bit_length :: "int \<Rightarrow> nat" where
  "bit_length a = (if 0 < a then bit_length (a div 2) + 1 else 0)"
  by pat_completeness auto
termination
  by (relation "measure nat") auto

declare bit_length.simps [simp del]

definition expo :: "rat \<Rightarrow> int" where
  "expo x =
     (let (a, b) = quotient_of x;
          d = int (bit_length a) - int (bit_length b)
      in if 2 powi d \<le> x then d else d - 1)"

definition round_half_even :: "rat \<Rightarrow> int" where
  "round_half_even m =
     (let f = \<lfloor>m\<rfloor>; r = m - of_int f
      in if r < 1 / 2 then f
         else if 1 / 2 < r then f + 1
         else if even f then f else f + 1)"

definition round_double :: "rat \<Rightarrow> rat" where
  "round_double x =
     (if x = 0 then 0
      else (let e = max (expo \<bar>x\<bar>) (- 1022);
                ulp = 2 powi (e - 52)
            in of_int (round_half_even (x / ulp)) * ulp))"

text \<open>
  \<open>a / b\<close> on two ints: the correctly rounded quotient, or \<open>ZeroDivisionError\<close>.
\<close>

definition float_truediv :: "nat \<Rightarrow> nat \<Rightarrow> py_error + rat" where
  "float_truediv a b =
     (if b = 0 then Inl ZeroDivisionError else Inr (round_double (of_nat a / of_nat b)))"

text \<open>
  \<open>match_skills\<close> with the two float operations of
  \<open>(match_count / total_required_skills) * 100\<close> rounded: first the quotient, then its
  product with 100. The other branch returns the int \<open>0\<close>.
\<close>

definition match_skills_float :: "'a set \<Rightarrow> 'a set \<Rightarrow> py_error + (nat \<times> rat)" where
  "match_skills_float js_skills job_skills =
     (let matching_skills = js_skills \<inter> job_skills;
          match_count = card matching_skills;
          total_required_skills = card job_skills
      in if total_required_skills > 0
         then (case float_truediv match_count total_required_skills of
                 Inl e \<Rightarrow> Inl e
               | Inr q \<Rightarrow> Inr (match_count, round_double (q * 100)))
         else Inr (match_count, 0))"

subsection \<open>Recommendations for one jobseeker\<close>

record recommendation =
  jobseeker_id :: int
  jobseeker_name :: string
  job_id :: int
  job_title :: string
  matching_skill_count :: nat
  matching_skill_percent :: rat

text \<open>The \<open>for job in job_data\<close> loop of \<open>process_recommendations\<close>, appending to the list.\<close>

fun process_loop ::
  "string set \<Rightarrow> jobseeker_row \<Rightarrow> job_row list \<Rightarrow> recommendation list
     \<Rightarrow> py_error + recommendation list" where
  "process_loop js_skills js_data [] recommendations = Inr recommendations"
| "process_loop js_skills js_data (job # rest) recommendations =
     (let job_skills = set (str_split CHR '','' (jobrow_required_skills job))
      in case match_skills js_skills job_skills of
           Inl e \<Rightarrow> Inl e
         | Inr (match_count, match_percent) \<Rightarrow>
             process_loop js_skills js_data rest
               (recommendations @
                [\<lparr>jobseeker_id = seeker_id js_data,
                  jobseeker_name = seeker_name js_data,
                  job_id = jobrow_id job,
                  job_title = jobrow_title job,
                  matching_skill_count = match_count,
                  matching_skill_percent = match_percent\<rparr>]))"

definition process_recommendations ::
  "jobseeker_row \<Rightarrow> job_row list \<Rightarrow> py_error + recommendation list" where
  "process_recommendations js_data job_data =
     (let recommendations = [];
          js_skills = set (str_split CHR '','' (seeker_skills js_data))
      in process_loop js_skills js_data job_data recommendations)"

subsection \<open>The worker pool\<close>

text \<open>
  \<open>Pool.starmap\<close> hands the tasks to worker processes, which finish in an order the
  program does not control, and blocks until every task is done. The order is the
  scheduler's: a list of choices, each picking one of the tasks still pending (a missing
  choice picks the first). Every completion order of the tasks is the run of some choice
  list. The pool tags each task with its position in the argument list and returns the
  results by position; when a task raised, the call raises the error that arrived first.
\<close>

definition pick :: "nat list \<Rightarrow> nat \<Rightarrow> nat" where
  "pick choices n = (case choices of [] \<Rightarrow> 0 | c # _ \<Rightarrow> c mod n)"

function run_pool :: "nat list \<Rightarrow> ('a \<Rightarrow> 'b) \<Rightarrow> (nat \<times> 'a) list \<Rightarrow> (nat \<times> 'b) list" where
  "run_pool choices f pending =
     (if pending = [] then []
      else (let k = pick choices (length pending)
            in (fst (pending ! k), f (snd (pending ! k)))
               # run_pool (tl choices) f (take k pending @ drop (Suc k) pending)))"
  by pat_completeness auto
termination
proof (relation "measure (\<lambda>(choices, f, pending). length pending)", goal_cases)
  case 1
  show ?case by simp
next
  case (2 choices f pending k)
  then have "k < length pending"
    by (auto simp: pick_def split: list.splits)
  then show ?case by simp
qed

declare run_pool.simps [simp del]

fun sequence_results :: "(py_error + 'b) list \<Rightarrow> py_error + 'b list" where
  "sequence_results [] = Inr []"
| "sequence_results (Inl e # rs) = Inl e"
| "sequence_results (Inr x # rs) =
     (case sequence_results rs of Inl e \<Rightarrow> Inl e | Inr xs \<Rightarrow> Inr (x # xs))"

definition starmap ::
  "nat list \<Rightarrow> ('a \<Rightarrow> py_error + 'b) \<Rightarrow> 'a list \<Rightarrow> py_error + 'b list" where
  "starmap choices f args =
     (let completed = run_pool choices f (zip [0..<length args] args)
      in case sequence_results (map snd completed) of
           Inl e \<Rightarrow> Inl e
         | Inr _ \<Rightarrow> sequence_results (map snd (sort_key fst completed)))"

subsection \<open>All recommendations, ranked\<close>

text \<open>The key of the final \<open>sorted\<close> call; tuples compare lexicographically.\<close>

definition sort_key_of :: "recommendation \<Rightarrow> int \<times> rat \<times> int" where
  "sort_key_of x = (jobseeker_id x, - matching_skill_percent x, job_id x)"

text \<open>
  \<open>generate_recommendation_parallel\<close>. Python's \<open>sorted\<close> is a stable sort by the key,
  which is what \<^const>\<open>sort_key\<close> computes.
\<close>

definition generate_recommendation_parallel ::
  "nat list \<Rightarrow> conn \<Rightarrow> py_error + recommendation list" where
  "generate_recommendation_parallel choices c =
     (let jobseekers = jobseekers_table c;
          jobs = jobs_table c
      in case starmap choices (\<lambda>js. process_recommendations js jobs) jobseekers of
           Inl e \<Rightarrow> Inl e
         | Inr results \<Rightarrow>
             (let recommendations = concat results;
                  sorted_recommendations = sort_key sort_key_of recommendations
              in Inr sorted_recommendations))"

text \<open>
  The sequential fallback of the specification: the same function with the pool replaced
  by a plain left-to-right map over the jobseekers, each call finishing before the next
  starts.
\<close>

definition generate_recommendation_sequential :: "conn \<Rightarrow> py_error + recommendation list" where
  "generate_recommendation_sequential c =
     (let jobseekers = jobseekers_table c;
          jobs = jobs_table c
      in case sequence_results (map (\<lambda>js. process_recommendations js jobs) jobseekers) of
           Inl e \<Rightarrow> Inl e
         | Inr results \<Rightarrow>
             (let recommendations = concat results;
                  sorted_recommendations = sort_key sort_key_of recommendations
              in Inr sorted_recommendations))"

subsection \<open>The record built for one pair\<close>

text \<open>
  What one turn of the loop of \<open>process_recommendations\<close> appends for a jobseeker row and
  a job row, with the score of \<open>match_skills\<close> written out. The theorems below relate the
  functions above to it.
\<close>

definition recommendation_of :: "jobseeker_row \<Rightarrow> job_row \<Rightarrow> recommendation" where
  "recommendation_of js_data job =
     (let js_skills = set (str_split CHR '','' (seeker_skills js_data));
          job_skills = set (str_split CHR '','' (jobrow_required_skills job));
          match_count = card (js_skills \<inter> job_skills)
      in \<lparr>jobseeker_id = seeker_id js_data,
          jobseeker_name = seeker_name js_data,
          job_id = jobrow_id job,
          job_title = jobrow_title job,
          matching_skill_count = match_count,
          matching_skill_percent =
            (if 0 < card job_skills then of_nat match_count / of_nat (card job_skills) * 100
             else 0)\<rparr>)"

subsection \<open>Example data\<close>

text \<open>
  Two jobseekers and three jobs as \<open>SELECT\<close> might return them, the same tables in another
  row order, and the ranked recommendations for them.
\<close>

definition example_conn :: conn where
  "example_conn =
     \<lparr>jobseekers_table =
        [\<lparr>seeker_id = 2, seeker_name = ''Bob'', seeker_skills = ''python''\<rparr>,
         \<lparr>seeker_id = 1, seeker_name = ''Alice'', seeker_skills = ''ruby,sql''\<rparr>],
      jobs_table =
        [\<lparr>jobrow_id = 3, jobrow_title = ''Ruby Developer'', jobrow_required_skills = ''ruby''\<rparr>,
         \<lparr>jobrow_id = 2, jobrow_title = ''Analyst'', jobrow_required_skills = ''sql''\<rparr>,
         \<lparr>jobrow_id = 1, jobrow_title = ''Engineer'', jobrow_required_skills = ''python,sql''\<rparr>]\<rparr>"

definition example_conn_shuffled :: conn where
  "example_conn_shuffled =
     \<lparr>jobseekers_table =
        [\<lparr>seeker_id = 1, seeker_name = ''Alice'', seeker_skills = ''ruby,sql''\<rparr>,
         \<lparr>seeker_id = 2, seeker_name = ''Bob'', seeker_skills = ''python''\<rparr>],
      jobs_table =
        [\<lparr>jobrow_id = 1, jobrow_title = ''Engineer'', jobrow_required_skills = ''python,sql''\<rparr>,
         \<lparr>jobrow_id = 3, jobrow_title = ''Ruby Developer'', jobrow_required_skills = ''ruby''\<rparr>,
         \<lparr>jobrow_id = 2, jobrow_title = ''Analyst'', jobrow_required_skills = ''sql''\<rparr>]\<rparr>"

definition example_ranked :: "recommendation list" where
  "example_ranked =
     [\<lparr>jobseeker_id = 1, jobseeker_name = ''Alice'', job_id = 2, job_title = ''Analyst'',
        matching_skill_count = 1, matching_skill_percent = 100\<rparr>,
      \<lparr>jobseeker_id = 1, jobseeker_name = ''Alice'', job_id = 3, job_title = ''Ruby Developer'',
        matching_skill_count = 1, matching_skill_percent = 100\<rparr>,
      \<lparr>jobseeker_id = 1, jobseeker_name = ''Alice'', job_id = 1, job_title = ''Engineer'',
        matching_skill_count = 1, matching_skill_percent = 50\<rparr>,
      \<lparr>jobseeker_id = 2, jobseeker_name = ''Bob'', job_id = 1, job_title = ''Engineer'',
        matching_skill_count = 1, matching_skill_percent = 50\<rparr>,
      \<lparr>jobseeker_id = 2, jobseeker_name = ''Bob'', job_id = 2, job_title = ''Analyst'',
        matching_skill_count = 0, matching_skill_percent = 0\<rparr>,
      \<lparr>jobseeker_id = 2, jobseeker_name = ''Bob'', job_id = 3, job_title = ''Ruby Developer'',
        matching_skill_count = 0, matching_skill_percent = 0\<rparr>]"

section \<open>Properties\<close>

subsection \<open>The scorer\<close>

lemma match_skills_eq:
  "match_skills A B =
     Inr (card (A \<inter> B), if 0 < card B then of_nat (card (A \<inter> B)) / of_nat (card B) * 100 else 0)"
  by (simp add: match_skills_def truediv_def Let_def)

lemma card_inter_le_right: "finite B \<Longrightarrow> card (A \<inter> B) \<le> card B"
  by (simp add: card_mono)

lemma card_inter_le_left: "finite A \<Longrightarrow> card (A \<inter> B) \<le> card A"
  by (simp add: card_mono)

text \<open>
  C5: against an empty set of required skills the score is \<open>(0, 0)\<close>, and no call of
  \<open>match_skills\<close> raises: the test on \<open>total_required_skills\<close> keeps the division
  away from a zero divisor.
\<close>

theorem match_skills_empty_required:
  "match_skills A {} = Inr (0, 0) \<and> match_skills A' B \<noteq> Inl e"
  by (simp add: match_skills_eq)

text \<open>
  C9: the count is at most the number of required skills and at most the number of the
  jobseeker's skills, and the percentage, computed exactly, lies between 0 and 100.
\<close>

theorem match_skills_bounds:
  assumes "finite A" and "finite B"
  shows "\<exists>c p. match_skills A B = Inr (c, p) \<and> c = card (A \<inter> B) \<and>
           c \<le> card B \<and> c \<le> card A \<and> 0 \<le> p \<and> p \<le> 100"
proof -
  let ?c = "card (A \<inter> B)"
  let ?p = "if 0 < card B then (of_nat ?c :: rat) / of_nat (card B) * 100 else 0"
  have cB: "?c \<le> card B" using assms(2) by (rule card_inter_le_right)
  have cA: "?c \<le> card A" using assms(1) by (rule card_inter_le_left)
  have "0 \<le> ?p" by simp
  moreover have "?p \<le> 100"
  proof (cases "0 < card B")
    case True
    define q :: rat where "q = of_nat ?c / of_nat (card B)"
    have "(of_nat ?c :: rat) \<le> of_nat (card B)" using cB by simp
    then have "q \<le> 1"
      using True by (simp add: q_def divide_le_eq_1)
    then have "q * 100 \<le> 1 * 100"
      by (rule mult_right_mono) simp
    then show ?thesis using True by (simp add: q_def)
  next
    case False
    then show ?thesis by simp
  qed
  ultimately show ?thesis using cA cB by (simp add: match_skills_eq)
qed

theorem match_skills_bounds_witness:
  "finite {''ruby'', ''sql''} \<and> finite {''ruby'', ''sql'', ''python''} \<and>
   (\<exists>c p. match_skills {''ruby'', ''sql''} {''ruby'', ''sql'', ''python''} = Inr (c, p) \<and>
      c = 2 \<and> c \<le> 3 \<and> c \<le> 2 \<and> 0 \<le> p \<and> p \<le> 100)"
  using match_skills_bounds [of "{''ruby'', ''sql''}" "{''ruby'', ''sql'', ''python''}"]
  by (simp add: numeral_2_eq_2)

subsection \<open>The scorer in binary64\<close>

lemma match_skills_float_eq:
  "match_skills_float A B =
     Inr (card (A \<inter> B),
          if 0 < card B
          then round_double (round_double (of_nat (card (A \<inter> B)) / of_nat (card B)) * 100)
          else 0)"
  by (simp add: match_skills_float_def float_truediv_def Let_def)

lemma bit_length_pos: "0 < a \<Longrightarrow> bit_length a = bit_length (a div 2) + 1"
  by (subst bit_length.simps) simp

lemma bit_length_nonpos: "a \<le> 0 \<Longrightarrow> bit_length a = 0"
  by (subst bit_length.simps) simp

lemma bit_length_bounds:
  "0 < a \<Longrightarrow> 0 < bit_length a \<and> 2 ^ (bit_length a - 1) \<le> a \<and> a < 2 ^ bit_length a"
proof (induction a rule: bit_length.induct)
  case (1 a)
  note pos = \<open>0 < a\<close>
  have bl: "bit_length a = bit_length (a div 2) + 1"
    using pos by (rule bit_length_pos)
  show ?case
  proof (cases "a div 2 = 0")
    case True
    with pos have a1: "a = 1" by presburger
    from True have "bit_length a = 1"
      unfolding bl by (simp add: bit_length_nonpos)
    with a1 show ?thesis by simp
  next
    case False
    with pos have half: "0 < a div 2" by presburger
    from "1.IH" [OF pos half]
    have l: "0 < bit_length (a div 2)"
      and lo: "2 ^ (bit_length (a div 2) - 1) \<le> a div 2"
      and hi: "a div 2 < 2 ^ bit_length (a div 2)"
      by simp_all
    define k where "k = bit_length (a div 2) - 1"
    from l have k: "bit_length (a div 2) = Suc k" by (simp add: k_def)
    from lo have "2 * 2 ^ k \<le> 2 * (a div 2)" by (simp add: k)
    also have "\<dots> \<le> a" by presburger
    finally have lo': "(2::int) ^ Suc k \<le> a" by simp
    from hi have "a div 2 + 1 \<le> 2 ^ Suc k" by (simp add: k)
    then have "2 * (a div 2) + 2 \<le> 2 * 2 ^ Suc k" by simp
    moreover have "a < 2 * (a div 2) + 2" by presburger
    ultimately have hi': "a < 2 ^ Suc (Suc k)" by simp
    from lo' hi' show ?thesis by (simp add: bl k)
  qed
qed

lemma round_half_even_error: "\<bar>of_int (round_half_even m) - m\<bar> \<le> 1 / 2"
proof -
  have "of_int \<lfloor>m\<rfloor> \<le> m" and "m < of_int \<lfloor>m\<rfloor> + 1"
    by linarith+
  then show ?thesis
    by (auto simp: round_half_even_def Let_def abs_le_iff)
qed

lemma expo_bounds:
  assumes "0 < x"
  shows "2 powi (expo x) \<le> x" and "x < 2 powi (expo x + 1)"
proof -
  obtain a b where q: "quotient_of x = (a, b)" by (cases "quotient_of x")
  then have b: "0 < b" by (rule quotient_of_denom_pos)
  from q have x: "x = of_int a / of_int b" by (rule quotient_of_div)
  with assms b have a: "0 < a" by (simp add: zero_less_divide_iff)
  define la lb where "la = bit_length a" and "lb = bit_length b"
  define d where "d = int la - int lb"
  from bit_length_bounds [OF a]
  have la: "0 < la" "2 ^ (la - 1) \<le> a" "a < 2 ^ la" by (simp_all add: la_def)
  from bit_length_bounds [OF b]
  have lb: "0 < lb" "2 ^ (lb - 1) \<le> b" "b < 2 ^ lb" by (simp_all add: lb_def)
  have ra: "(2::rat) ^ (la - 1) \<le> of_int a" "of_int a < (2::rat) ^ la"
    using la(2,3) by (metis of_int_le_iff of_int_numeral of_int_power, metis of_int_less_iff of_int_numeral of_int_power)
  have rb: "(2::rat) ^ (lb - 1) \<le> of_int b" "of_int b < (2::rat) ^ lb"
    using lb(2,3) by (metis of_int_le_iff of_int_numeral of_int_power, metis of_int_less_iff of_int_numeral of_int_power)
  have pa: "(2::rat) ^ la = 2 * 2 ^ (la - 1)" using la(1) by (cases la) simp_all
  have pb: "(2::rat) ^ lb = 2 * 2 ^ (lb - 1)" using lb(1) by (cases lb) simp_all
  have D: "(2::rat) powi d = 2 ^ la / 2 ^ lb"
    unfolding d_def by (simp add: power_int_diff)
  have bpos: "(0::rat) < of_int b" using b by simp
  have upper: "x < 2 * 2 powi d"
  proof -
    have "of_int a * (2::rat) ^ lb < 2 ^ la * (2 * of_int b)"
    proof -
      have "of_int a * (2::rat) ^ lb < 2 ^ la * 2 ^ lb"
        using ra(2) by simp
      also have "\<dots> \<le> 2 ^ la * (2 * of_int b)"
        using rb(1) by (simp add: pb)
      finally show ?thesis .
    qed
    then show ?thesis
      unfolding x D using bpos by (simp add: field_simps)
  qed
  have lower: "2 powi d / 2 \<le> x"
  proof -
    have "(2::rat) ^ la * of_int b \<le> 2 * of_int a * 2 ^ lb"
    proof -
      have "(2::rat) ^ la * of_int b \<le> 2 ^ la * 2 ^ lb"
        using rb(2) by simp
      also have "\<dots> \<le> (2 * of_int a) * 2 ^ lb"
        using ra(1) by (simp add: pa)
      finally show ?thesis by simp
    qed
    then show ?thesis
      unfolding x D using bpos by (simp add: field_simps)
  qed
  have e: "expo x = (if 2 powi d \<le> x then d else d - 1)"
    by (simp add: expo_def q d_def la_def lb_def Let_def)
  have up1: "(2::rat) powi (d + 1) = 2 * 2 powi d"
    by (simp add: power_int_add)
  have dn1: "(2::rat) powi (d - 1) = 2 powi d / 2"
    by (simp add: power_int_diff)
  show "2 powi (expo x) \<le> x"
    using lower by (simp add: e dn1)
  show "x < 2 powi (expo x + 1)"
    using upper by (simp add: e up1 not_le)
qed

lemma round_double_error:
  assumes "x \<noteq> 0"
  shows "\<bar>round_double x - x\<bar> \<le> 2 powi (max (expo \<bar>x\<bar>) (- 1022) - 52) / 2"
proof -
  define u :: rat where "u = 2 powi (max (expo \<bar>x\<bar>) (- 1022) - 52)"
  define n where "n = round_half_even (x / u)"
  have u: "0 < u" by (simp add: u_def)
  have r: "round_double x = of_int n * u"
    using assms by (simp add: round_double_def Let_def u_def n_def)
  have "\<bar>of_int n - x / u\<bar> \<le> 1 / 2"
    unfolding n_def by (rule round_half_even_error)
  then have "\<bar>of_int n - x / u\<bar> * u \<le> 1 / 2 * u"
    using u by (intro mult_right_mono) simp_all
  moreover have "\<bar>of_int n - x / u\<bar> * u = \<bar>of_int n * u - x\<bar>"
  proof -
    have "\<bar>of_int n - x / u\<bar> * u = \<bar>(of_int n - x / u) * u\<bar>"
      using u by (simp add: abs_mult)
    also have "(of_int n - x / u) * u = of_int n * u - x"
      using u by (simp add: field_simps)
    finally show ?thesis .
  qed
  ultimately have "\<bar>of_int n * u - x\<bar> \<le> u / 2"
    by simp
  then show ?thesis
    unfolding r u_def .
qed

lemma round_double_relative:
  assumes "2 powi (- 1022) \<le> x"
  shows "\<bar>round_double x - x\<bar> \<le> x / 2 ^ 53"
proof -
  have "(0::rat) < 2 powi (- 1022)" by (rule zero_less_power_int) simp
  with assms have pos: "0 < x" by linarith
  note b = expo_bounds [OF pos]
  have e: "- 1022 \<le> expo x"
  proof (rule ccontr)
    assume "\<not> - 1022 \<le> expo x"
    then have "expo x + 1 \<le> - 1022" by simp
    then have "(2::rat) powi (expo x + 1) \<le> 2 powi (- 1022)"
      by (rule power_int_increasing) simp
    with b(2) assms show False by simp
  qed
  have "\<bar>round_double x - x\<bar> \<le> 2 powi (max (expo \<bar>x\<bar>) (- 1022) - 52) / 2"
    using pos by (intro round_double_error) simp
  also have "max (expo \<bar>x\<bar>) (- 1022) = expo x"
    using pos e by simp
  also have "(2::rat) powi (expo x - 52) / 2 = 2 powi (expo x) / 2 ^ 53"
    by (simp add: power_int_diff)
  also have "\<dots> \<le> x / 2 ^ 53"
    using b(1) by (simp add: divide_right_mono)
  finally show ?thesis .
qed

lemma percent_error:
  assumes c: "0 < c" and t: "0 < t" and small: "t < 2 ^ 63"
  shows "\<bar>round_double (round_double (of_nat c / of_nat t) * 100) - 100 * of_nat c / of_nat t\<bar>
           \<le> 100 * of_nat c / of_nat t * (1 / 2 ^ 52 + 1 / 2 ^ 106)"
proof -
  define q :: rat where "q = of_nat c / of_nat t"
  define fq where "fq = round_double q"
  define y where "y = fq * 100"
  define \<epsilon> :: rat where "\<epsilon> = 1 / 2 ^ 53"
  have eps: "0 < \<epsilon>" "\<epsilon> \<le> 1 / 2" by (simp_all add: \<epsilon>_def)
  have tiny: "(2::rat) powi (- 1022) \<le> 2 powi (- 63)"
    by (rule power_int_increasing) simp_all
  have "(of_nat t :: rat) \<le> 2 ^ 63"
    using small by (metis less_imp_le of_nat_le_iff of_nat_numeral of_nat_power)
  then have "1 / (2::rat) ^ 63 \<le> 1 / of_nat t"
    using t by (intro divide_left_mono) simp_all
  also have "1 / of_nat t \<le> q"
    unfolding q_def using c t by (intro divide_right_mono) simp_all
  finally have "(2::rat) powi (- 63) \<le> q"
    by (simp add: power_int_minus_divide)
  with tiny have qbig: "2 powi (- 1022) \<le> q" by (rule order_trans)
  have qpos: "0 < q" unfolding q_def using c t by simp
  have e1: "\<bar>fq - q\<bar> \<le> q * \<epsilon>"
    using round_double_relative [OF qbig] by (simp add: fq_def \<epsilon>_def)
  then have fq_lo: "q * (1 - \<epsilon>) \<le> fq" and fq_hi: "fq \<le> q * (1 + \<epsilon>)"
    by (simp_all add: abs_le_iff algebra_simps)
  have "q \<le> q * (1 - \<epsilon>) * 100"
    using qpos eps by (simp add: algebra_simps)
  also have "\<dots> \<le> y"
    unfolding y_def using fq_lo by simp
  finally have qy: "q \<le> y" .
  with qbig have ybig: "2 powi (- 1022) \<le> y" by (rule order_trans)
  have e2: "\<bar>round_double y - y\<bar> \<le> y * \<epsilon>"
    using round_double_relative [OF ybig] by (simp add: \<epsilon>_def)
  have yhi: "y \<le> 100 * q * (1 + \<epsilon>)"
    unfolding y_def using fq_hi by simp
  have e3: "\<bar>y - 100 * q\<bar> \<le> 100 * q * \<epsilon>"
    unfolding y_def using e1 by (simp add: abs_le_iff algebra_simps)
  have "\<bar>round_double y - 100 * q\<bar> \<le> \<bar>round_double y - y\<bar> + \<bar>y - 100 * q\<bar>"
    by simp
  also have "\<dots> \<le> y * \<epsilon> + 100 * q * \<epsilon>"
    using e2 e3 by (rule add_mono)
  also have "\<dots> \<le> 100 * q * (1 + \<epsilon>) * \<epsilon> + 100 * q * \<epsilon>"
    using yhi eps(1) by (simp add: mult_right_mono)
  also have "\<dots> = 100 * q * (1 / 2 ^ 52 + 1 / 2 ^ 106)"
    by (simp add: \<epsilon>_def algebra_simps)
  finally show ?thesis
    by (simp add: y_def fq_def q_def)
qed

text \<open>
  The exact percentage of \<open>match_skills\<close> and the float of \<open>match_skills_float\<close> differ by
  the two roundings only.
\<close>

lemma match_skills_float_near_exact:
  assumes "finite B" and "card B < 2 ^ 63"
  shows "\<exists>q p. match_skills A B = Inr (card (A \<inter> B), q) \<and>
               match_skills_float A B = Inr (card (A \<inter> B), p) \<and>
               \<bar>p - q\<bar> \<le> q * (1 / 2 ^ 52 + 1 / 2 ^ 106)"
proof (cases "card B = 0 \<or> card (A \<inter> B) = 0")
  case True
  have "round_double 0 = 0" by (simp add: round_double_def)
  with True show ?thesis
    unfolding match_skills_eq match_skills_float_eq by auto
next
  case False
  then have c: "0 < card (A \<inter> B)" and t: "0 < card B" by simp_all
  define E :: rat where "E = 1 / 2 ^ 52 + 1 / 2 ^ 106"
  define q :: rat where "q = 100 * of_nat (card (A \<inter> B)) / of_nat (card B)"
  define p where
    "p = round_double (round_double (of_nat (card (A \<inter> B)) / of_nat (card B)) * 100)"
  have "\<bar>p - q\<bar> \<le> q * E"
    unfolding p_def q_def E_def using c t assms(2) by (rule percent_error)
  moreover have "match_skills A B = Inr (card (A \<inter> B), q)"
    using t by (simp add: match_skills_eq q_def)
  moreover have "match_skills_float A B = Inr (card (A \<inter> B), p)"
    using t by (simp add: match_skills_float_eq p_def)
  ultimately show ?thesis
    unfolding E_def by blast
qed

text \<open>
  C1, as the code computes it: for a finite set of required skills \<open>match_skills\<close> returns
  the size of the intersection together with the float \<open>(count / total) * 100\<close>, that is
  the quotient rounded to binary64 and then its product with 100 rounded to binary64, when
  there is a required skill, and together with 0 when there is none. For sets whose size
  fits 63 bits that float is within a relative error of \<open>2 ^ -52 + 2 ^ -106\<close> of
  \<open>100 * count / total\<close>. The result is a function of the two arguments: equal arguments
  give equal results, and nothing else is read or changed.
\<close>

theorem match_skills_float_value:
  assumes "finite B"
  shows "match_skills_float A B =
           Inr (card (A \<inter> B),
                if B = {} then 0
                else round_double (round_double (of_nat (card (A \<inter> B)) / of_nat (card B)) * 100)) \<and>
         (B \<noteq> {} \<and> card B < 2 ^ 63 \<longrightarrow>
            (\<exists>p. match_skills_float A B = Inr (card (A \<inter> B), p) \<and>
                 \<bar>p - 100 * of_nat (card (A \<inter> B)) / of_nat (card B)\<bar>
                   \<le> 100 * of_nat (card (A \<inter> B)) / of_nat (card B) * (1 / 2 ^ 52 + 1 / 2 ^ 106))) \<and>
         (\<forall>A' B'. A' = A \<longrightarrow> B' = B \<longrightarrow> match_skills_float A' B' = match_skills_float A B)"
proof (intro conjI)
  from assms have pos: "0 < card B \<longleftrightarrow> B \<noteq> {}"
    by (simp add: card_gt_0_iff)
  show "match_skills_float A B =
           Inr (card (A \<inter> B),
                if B = {} then 0
                else round_double (round_double (of_nat (card (A \<inter> B)) / of_nat (card B)) * 100))"
    unfolding match_skills_float_eq using pos by simp
  show "B \<noteq> {} \<and> card B < 2 ^ 63 \<longrightarrow>
            (\<exists>p. match_skills_float A B = Inr (card (A \<inter> B), p) \<and>
                 \<bar>p - 100 * of_nat (card (A \<inter> B)) / of_nat (card B)\<bar>
                   \<le> 100 * of_nat (card (A \<inter> B)) / of_nat (card B) * (1 / 2 ^ 52 + 1 / 2 ^ 106))"
  proof
    assume h: "B \<noteq> {} \<and> card B < 2 ^ 63"
    with pos have t: "0 < card B" and small: "card B < 2 ^ 63" by simp_all
    let ?c = "card (A \<inter> B)"
    let ?p = "round_double (round_double (of_nat ?c / of_nat (card B)) * 100)"
    have val: "match_skills_float A B = Inr (?c, ?p)"
      unfolding match_skills_float_eq using t by simp
    have "\<bar>?p - 100 * of_nat ?c / of_nat (card B)\<bar>
            \<le> 100 * of_nat ?c / of_nat (card B) * (1 / 2 ^ 52 + 1 / 2 ^ 106)"
    proof (cases "?c = 0")
      case True
      then show ?thesis by (simp add: round_double_def)
    next
      case False
      then have "0 < ?c" by simp
      then show ?thesis using t small by (rule percent_error)
    qed
    with val show "\<exists>p. match_skills_float A B = Inr (?c, p) \<and>
                 \<bar>p - 100 * of_nat ?c / of_nat (card B)\<bar>
                   \<le> 100 * of_nat ?c / of_nat (card B) * (1 / 2 ^ 52 + 1 / 2 ^ 106)"
      by blast
  qed
  show "\<forall>A' B'. A' = A \<longrightarrow> B' = B \<longrightarrow> match_skills_float A' B' = match_skills_float A B"
    by simp
qed

theorem match_skills_float_value_witness:
  "finite {''ruby'', ''sql'', ''python''} \<and>
   {''ruby'', ''sql'', ''python''} \<noteq> {} \<and>
   card {''ruby'', ''sql'', ''python''} < 2 ^ 63 \<and>
   match_skills_float {''ruby'', ''sql''} {''ruby'', ''sql'', ''python''} =
     Inr (2, 4691249611844266 / 70368744177664) \<and>
   \<bar>4691249611844266 / 70368744177664 - 100 * 2 / 3\<bar> \<le> 100 * 2 / 3 * (1 / 2 ^ 52 + 1 / 2 ^ 106 :: rat) \<and>
   match_skills_float {''ruby'', ''sql''} ({} :: string set) = Inr (0, 0)"
proof -
  let ?A = "{''ruby'', ''sql''}" and ?B = "{''ruby'', ''sql'', ''python''}"
  have f: "finite ?B" by simp
  have ne: "?B \<noteq> {}" by simp
  have small: "card ?B < 2 ^ 63" by simp
  have c: "card (?A \<inter> ?B) = 2" by simp
  have t: "card ?B = 3" by simp
  have r: "round_double (round_double (2 / 3) * 100) = 4691249611844266 / 70368744177664"
    by code_simp
  note th = match_skills_float_value [OF f, of ?A]
  from th have v: "match_skills_float ?A ?B = Inr (2, 4691249611844266 / 70368744177664)"
    unfolding c t using r by simp
  from th ne small obtain p where
    "match_skills_float ?A ?B = Inr (card (?A \<inter> ?B), p)"
    "\<bar>p - 100 * of_nat (card (?A \<inter> ?B)) / of_nat (card ?B)\<bar>
       \<le> 100 * of_nat (card (?A \<inter> ?B)) / of_nat (card ?B) * (1 / 2 ^ 52 + 1 / 2 ^ 106)"
    by blast
  with v have b: "\<bar>4691249611844266 / 70368744177664 - 100 * 2 / 3\<bar>
                    \<le> 100 * 2 / 3 * (1 / 2 ^ 52 + 1 / 2 ^ 106 :: rat)"
    unfolding c t by simp
  have e: "match_skills_float ?A ({} :: string set) = Inr (0, 0)"
    using match_skills_float_value [of "{} :: string set" ?A] by simp
  from f ne small v b e show ?thesis by blast
qed

text \<open>
  The float is not always \<open>100.0 * count / total\<close>, the product rounded and then the
  quotient rounded: with two of three required skills matched the code returns
  \<open>66.66666666666666\<close> and that expression is \<open>66.66666666666667\<close>, one unit in the last
  place apart.
\<close>

theorem match_skills_float_counterexample:
  "match_skills_float {''ruby'', ''sql''} {''ruby'', ''sql'', ''python''} =
     Inr (2, 4691249611844266 / 70368744177664) \<and>
   round_double (round_double (100 * of_nat (card ({''ruby'', ''sql''} \<inter> {''ruby'', ''sql'', ''python''})))
       / of_nat (card {''ruby'', ''sql'', ''python''})) =
     4691249611844267 / 70368744177664 \<and>
   match_skills_float {''ruby'', ''sql''} {''ruby'', ''sql'', ''python''} \<noteq>
     Inr (card ({''ruby'', ''sql''} \<inter> {''ruby'', ''sql'', ''python''}),
          round_double (round_double (100 * of_nat (card ({''ruby'', ''sql''} \<inter> {''ruby'', ''sql'', ''python''})))
            / of_nat (card {''ruby'', ''sql'', ''python''})))"
proof -
  have code: "round_double (round_double (2 / 3) * 100) = 4691249611844266 / 70368744177664"
    by code_simp
  have claim: "round_double (round_double (100 * 2) / 3) = 4691249611844267 / 70368744177664"
    by code_simp
  have c: "card ({''ruby'', ''sql''} \<inter> {''ruby'', ''sql'', ''python''}) = 2"
    by simp
  have t: "card {''ruby'', ''sql'', ''python''} = 3"
    by simp
  show ?thesis
    unfolding match_skills_float_eq c t using code claim by simp
qed

subsection \<open>Splitting, joining, trimming and lowering\<close>

lemma str_split_not_Nil: "str_split sep s \<noteq> []"
  by (induction s) (auto split: list.splits)

lemma str_split_no_sep: "sep \<notin> set s \<Longrightarrow> str_split sep s = [s]"
  by (induction s) auto

lemma str_split_pieces: "w \<in> set (str_split sep s) \<Longrightarrow> sep \<notin> set w"
  by (induction s arbitrary: w) (auto split: list.splits if_splits)

lemma str_split_append:
  "sep \<notin> set x \<Longrightarrow> str_split sep (x @ sep # rest) = x # str_split sep rest"
  by (induction x) auto

lemma str_split_join:
  "xs \<noteq> [] \<Longrightarrow> \<forall>x\<in>set xs. sep \<notin> set x \<Longrightarrow> str_split sep (str_join sep xs) = xs"
  by (induction sep xs rule: str_join.induct) (auto simp: str_split_no_sep str_split_append)

lemma isspace_lower_char: "isspace (lower_char c) = isspace c"
  by (auto simp: isspace_def lower_char_def Let_def)

lemma lower_char_idem: "lower_char (lower_char c) = lower_char c"
  by (auto simp: lower_char_def Let_def)

lemma lower_char_comma: "c \<noteq> CHR '','' \<Longrightarrow> lower_char c \<noteq> CHR '',''"
proof
  assume ne: "c \<noteq> CHR '',''" and eq: "lower_char c = CHR '',''"
  let ?n = "of_char c :: nat"
  show False
  proof (cases "65 \<le> ?n \<and> ?n \<le> 90")
    case True
    with eq have "char_of (?n + 32) = CHR '',''"
      by (simp add: lower_char_def)
    then have "(of_char (char_of (?n + 32)) :: nat) = of_char CHR '',''"
      by simp
    then have "(?n + 32) mod 256 = 44"
      by simp
    with True show False by simp
  next
    case False
    with eq ne show False by (simp add: lower_char_def)
  qed
qed

lemma lower_idem: "lower (lower s) = lower s"
  by (simp add: lower_def lower_char_idem)

lemma lower_no_comma:
  assumes "CHR '','' \<notin> set s"
  shows "CHR '','' \<notin> set (lower s)"
proof
  assume "CHR '','' \<in> set (lower s)"
  then obtain c where c: "c \<in> set s" and eq: "lower_char c = CHR '',''"
    unfolding lower_def by (metis imageE list.set_map)
  from c assms have "c \<noteq> CHR '',''" by blast
  then have "lower_char c \<noteq> CHR '',''" by (rule lower_char_comma)
  with eq show False by blast
qed

lemma strip_subset: "set (strip s) \<subseteq> set s"
  unfolding strip_def by (metis set_dropWhileD set_rev subsetI)

lemma dropWhile_isspace_lower:
  "dropWhile isspace (map lower_char s) = map lower_char (dropWhile isspace s)"
  by (induction s) (simp_all add: isspace_lower_char)

lemma strip_lower: "strip (lower s) = lower (strip s)"
  by (simp add: strip_def lower_def dropWhile_isspace_lower rev_map)

lemma hd_rev_dropWhile_rev:
  "rev (dropWhile P (rev t)) \<noteq> [] \<Longrightarrow> hd (rev (dropWhile P (rev t))) = hd t"
  by (induction t rule: rev_induct) (auto simp: hd_append split: if_splits)

lemma dropWhile_strip: "dropWhile isspace (strip s) = strip s"
proof (cases "strip s = []")
  case True
  then show ?thesis by simp
next
  case False
  let ?t = "dropWhile isspace s"
  from False have hd: "hd (strip s) = hd ?t"
    unfolding strip_def by (rule hd_rev_dropWhile_rev)
  have "?t \<noteq> []"
  proof
    assume "?t = []"
    then have "strip s = []" by (auto simp: strip_def dest: set_dropWhileD)
    with False show False by simp
  qed
  then have "\<not> isspace (hd ?t)"
    by (rule hd_dropWhile)
  with hd False show ?thesis
    by (cases "strip s") simp_all
qed

lemma strip_idem: "strip (strip s) = strip s"
proof -
  have "strip (strip s) = rev (dropWhile isspace (rev (strip s)))"
    by (simp add: strip_def [of "strip s"] dropWhile_strip)
  also have "\<dots> = strip s"
    by (simp add: strip_def)
  finally show ?thesis .
qed

lemma all_space_strip: "list_all isspace s \<Longrightarrow> strip s = []"
  by (auto simp: strip_def list_all_iff dest: set_dropWhileD)

lemma not_isspace_comma: "\<not> isspace CHR '',''"
  by (simp add: isspace_def)

lemma lower_Nil: "lower [] = []"
  by (simp add: lower_def)

lemma blank_skills:
  assumes "list_all isspace s"
  shows "set (map (\<lambda>skill. lower (strip skill)) (str_split CHR '','' s)) = {[]}"
proof -
  from assms have "CHR '','' \<notin> set s"
    using not_isspace_comma by (auto simp: list_all_iff)
  then have "str_split CHR '','' s = [s]"
    by (rule str_split_no_sep)
  with assms show ?thesis
    by (simp add: all_space_strip lower_Nil)
qed

lemma token_fixed:
  assumes "t \<in> set (map (\<lambda>skill. lower (strip skill)) (str_split CHR '','' s))"
  shows "CHR '','' \<notin> set t" and "lower (strip t) = t"
proof -
  from assms obtain p where p: "p \<in> set (str_split CHR '','' s)" and t: "t = lower (strip p)"
    by auto
  from p have "CHR '','' \<notin> set p" by (rule str_split_pieces)
  then have "CHR '','' \<notin> set (strip p)" using strip_subset by blast
  then show "CHR '','' \<notin> set t" unfolding t by (rule lower_no_comma)
  show "lower (strip t) = t"
    unfolding t by (simp add: strip_lower strip_idem lower_idem)
qed

lemma render_roundtrip:
  assumes "set xs = set (map (\<lambda>skill. lower (strip skill)) (str_split CHR '','' s))"
  shows "str_split CHR '','' (str_join CHR '','' xs) = xs"
    and "map (\<lambda>skill. lower (strip skill)) xs = xs"
proof -
  have "str_split CHR '','' s \<noteq> []" by (rule str_split_not_Nil)
  with assms have ne: "xs \<noteq> []" by auto
  have "\<forall>x\<in>set xs. CHR '','' \<notin> set x"
    using assms token_fixed(1) by blast
  with ne show "str_split CHR '','' (str_join CHR '','' xs) = xs"
    by (rule str_split_join)
  show "map (\<lambda>skill. lower (strip skill)) xs = xs"
    using assms token_fixed(2) by (intro map_idI) blast
qed

subsection \<open>The skill normalizer\<close>

text \<open>
  C6, as the code has it: the constructors of \<open>JobSeeker\<close> and \<open>Job\<close> turn the empty
  skills string into the set whose one element is the empty token, since splitting the
  empty string yields one empty piece.
\<close>

theorem empty_raw_skills:
  "JobSeeker_skills (JobSeeker_init ident name []) = {[]} \<and>
   Job_required_skills (Job_init ident' title []) = {[]}"
  by (simp add: JobSeeker_init_def Job_init_def strip_def lower_def)

text \<open>
  The set parsed from the empty string is therefore not empty.
\<close>

theorem empty_raw_skills_counterexample:
  "JobSeeker_skills (JobSeeker_init 1 ''Alice'' []) \<noteq> {} \<and>
   Job_required_skills (Job_init 1 ''Ruby Developer'' []) \<noteq> {}"
  by (simp add: JobSeeker_init_def Job_init_def)

text \<open>
  C7: parsing is idempotent under re-serialization. Whatever order \<open>iter\<close> the set is
  visited in when \<open>insert_data\<close> joins it with commas, parsing the stored string again
  with the constructor gives the set the constructor built, and so does the plain split
  on commas that \<open>process_recommendations\<close> applies to the stored string.
\<close>

theorem render_normalize:
  assumes "set (iter (JobSeeker_skills (JobSeeker_init ident name s))) =
             JobSeeker_skills (JobSeeker_init ident name s)"
    and "set (iter (Job_required_skills (Job_init ident' title s'))) =
             Job_required_skills (Job_init ident' title s')"
  shows "JobSeeker_skills (JobSeeker_init ident name
            (seeker_skills (jobseeker_tuple iter (JobSeeker_init ident name s)))) =
           JobSeeker_skills (JobSeeker_init ident name s) \<and>
         Job_required_skills (Job_init ident' title
            (jobrow_required_skills (job_tuple iter (Job_init ident' title s')))) =
           Job_required_skills (Job_init ident' title s') \<and>
         set (str_split CHR '','' (seeker_skills (jobseeker_tuple iter (JobSeeker_init ident name s)))) =
           JobSeeker_skills (JobSeeker_init ident name s) \<and>
         set (str_split CHR '','' (jobrow_required_skills (job_tuple iter (Job_init ident' title s')))) =
           Job_required_skills (Job_init ident' title s')"
proof -
  let ?norm = "\<lambda>r. set (map (\<lambda>skill. lower (strip skill)) (str_split CHR '','' r))"
  let ?xs = "iter (?norm s)" and ?ys = "iter (?norm s')"
  from assms(1) have xs: "set ?xs = ?norm s" by (simp add: JobSeeker_init_def)
  from assms(2) have ys: "set ?ys = ?norm s'" by (simp add: Job_init_def)
  note rx = render_roundtrip [OF xs] and ry = render_roundtrip [OF ys]
  have "?norm (str_join CHR '','' ?xs) = ?norm s"
    unfolding rx(1) rx(2) by (rule xs)
  moreover have "?norm (str_join CHR '','' ?ys) = ?norm s'"
    unfolding ry(1) ry(2) by (rule ys)
  moreover have "set (str_split CHR '','' (str_join CHR '','' ?xs)) = ?norm s"
    unfolding rx(1) by (rule xs)
  moreover have "set (str_split CHR '','' (str_join CHR '','' ?ys)) = ?norm s'"
    unfolding ry(1) by (rule ys)
  ultimately show ?thesis
    by (simp add: JobSeeker_init_def Job_init_def jobseeker_tuple_def job_tuple_def)
qed


theorem render_normalize_witness:
  "set ((\<lambda>S. [''sql'', ''ruby'']) (JobSeeker_skills (JobSeeker_init 1 ''Alice'' '' Ruby, SQL,ruby''))) =
     JobSeeker_skills (JobSeeker_init 1 ''Alice'' '' Ruby, SQL,ruby'') \<and>
   set ((\<lambda>S. [''sql'', ''ruby'']) (Job_required_skills (Job_init 7 ''Dev'' ''RUBY ,sql''))) =
     Job_required_skills (Job_init 7 ''Dev'' ''RUBY ,sql'') \<and>
   seeker_skills (jobseeker_tuple (\<lambda>S. [''sql'', ''ruby'']) (JobSeeker_init 1 ''Alice'' '' Ruby, SQL,ruby'')) =
     ''sql,ruby'' \<and>
   JobSeeker_skills (JobSeeker_init 1 ''Alice''
     (seeker_skills (jobseeker_tuple (\<lambda>S. [''sql'', ''ruby''])
        (JobSeeker_init 1 ''Alice'' '' Ruby, SQL,ruby'')))) =
     JobSeeker_skills (JobSeeker_init 1 ''Alice'' '' Ruby, SQL,ruby'') \<and>
   set (str_split CHR '','' (seeker_skills (jobseeker_tuple (\<lambda>S. [''sql'', ''ruby''])
        (JobSeeker_init 1 ''Alice'' '' Ruby, SQL,ruby'')))) =
     JobSeeker_skills (JobSeeker_init 1 ''Alice'' '' Ruby, SQL,ruby'')"
proof -
  let ?iter = "\<lambda>S :: string set. [''sql'', ''ruby'']"
  have h1: "set (?iter (JobSeeker_skills (JobSeeker_init 1 ''Alice'' '' Ruby, SQL,ruby''))) =
              JobSeeker_skills (JobSeeker_init 1 ''Alice'' '' Ruby, SQL,ruby'')"
    by code_simp
  have h2: "set (?iter (Job_required_skills (Job_init 7 ''Dev'' ''RUBY ,sql''))) =
              Job_required_skills (Job_init 7 ''Dev'' ''RUBY ,sql'')"
    by code_simp
  have h3: "seeker_skills (jobseeker_tuple ?iter (JobSeeker_init 1 ''Alice'' '' Ruby, SQL,ruby'')) =
              ''sql,ruby''"
    by (simp add: jobseeker_tuple_def)
  from render_normalize [of ?iter 1 "''Alice''" "'' Ruby, SQL,ruby''" 7 "''Dev''" "''RUBY ,sql''", OF h1 h2]
  show ?thesis using h1 h2 h3 by blast
qed

subsection \<open>Full matches\<close>

lemma percent_full:
  assumes "finite B"
  shows "(if 0 < card B then (of_nat (card (A \<inter> B)) :: rat) / of_nat (card B) * 100 else 0) = 100
           \<longleftrightarrow> B \<noteq> {} \<and> B \<subseteq> A"
proof (cases "B = {}")
  case True
  then show ?thesis by simp
next
  case False
  with assms have pos: "0 < card B" by (simp add: card_gt_0_iff)
  have "(of_nat (card (A \<inter> B)) :: rat) / of_nat (card B) * 100 = 100
          \<longleftrightarrow> card (A \<inter> B) = card B"
    using pos by (simp add: field_simps)
  also have "\<dots> \<longleftrightarrow> A \<inter> B = B"
    using assms card_subset_eq [of B "A \<inter> B"] by auto
  also have "\<dots> \<longleftrightarrow> B \<subseteq> A" by blast
  finally show ?thesis using pos False by simp
qed

text \<open>
  C10: for a finite set of required skills the percentage is 100 exactly when that set is
  not empty and every required skill is among the jobseeker's. A blank skills string
  (nothing but whitespace) parses to the one empty token, so a jobseeker with a blank
  skills field scores \<open>(1, 100)\<close> against a job with a blank required skills field.
\<close>

theorem full_match:
  assumes "finite B" and "list_all isspace s" and "list_all isspace s'"
  shows "((\<exists>c. match_skills A B = Inr (c, 100)) \<longleftrightarrow> B \<noteq> {} \<and> B \<subseteq> A) \<and>
         match_skills (JobSeeker_skills (JobSeeker_init ident name s))
                      (Job_required_skills (Job_init ident' title s')) = Inr (1, 100)"
proof
  show "(\<exists>c. match_skills A B = Inr (c, 100)) \<longleftrightarrow> B \<noteq> {} \<and> B \<subseteq> A"
    unfolding match_skills_eq using percent_full [OF assms(1), of A] by simp
next
  have "JobSeeker_skills (JobSeeker_init ident name s) = {[]}"
    using blank_skills [OF assms(2)] by (simp add: JobSeeker_init_def)
  moreover have "Job_required_skills (Job_init ident' title s') = {[]}"
    using blank_skills [OF assms(3)] by (simp add: Job_init_def)
  ultimately show "match_skills (JobSeeker_skills (JobSeeker_init ident name s))
                      (Job_required_skills (Job_init ident' title s')) = Inr (1, 100)"
    by (simp add: match_skills_eq)
qed

theorem full_match_witness:
  "finite {''ruby'', ''sql''} \<and> list_all isspace [] \<and> list_all isspace ''  '' \<and>
   ((\<exists>c. match_skills {''ruby'', ''sql'', ''python''} {''ruby'', ''sql''} = Inr (c, 100)) \<longleftrightarrow>
      {''ruby'', ''sql''} \<noteq> {} \<and> {''ruby'', ''sql''} \<subseteq> {''ruby'', ''sql'', ''python''}) \<and>
   {''ruby'', ''sql''} \<subseteq> {''ruby'', ''sql'', ''python''} \<and>
   match_skills (JobSeeker_skills (JobSeeker_init 1 ''Alice'' []))
                (Job_required_skills (Job_init 2 ''Ruby Developer'' ''  '')) = Inr (1, 100)"
proof -
  have h1: "finite {''ruby'', ''sql''}" by simp
  have h2: "list_all isspace []" by simp
  have h3: "list_all isspace ''  ''" by (simp add: isspace_def)
  have h4: "{''ruby'', ''sql''} \<subseteq> {''ruby'', ''sql'', ''python''}" by simp
  from full_match [OF h1 h2 h3, of "{''ruby'', ''sql'', ''python''}" 1 "''Alice''" 2 "''Ruby Developer''"]
  show ?thesis using h1 h2 h3 h4 by blast
qed

subsection \<open>The loop, the pool and the pipeline in closed form\<close>

lemma process_loop_eq:
  "process_loop (set (str_split CHR '','' (seeker_skills js_data))) js_data job_data acc =
     Inr (acc @ map (recommendation_of js_data) job_data)"
  by (induction job_data arbitrary: acc)
     (simp_all add: match_skills_eq recommendation_of_def Let_def)

lemma process_recommendations_eq:
  "process_recommendations js_data job_data = Inr (map (recommendation_of js_data) job_data)"
  by (simp add: process_recommendations_def process_loop_eq)

lemma sequence_results_Inr: "sequence_results (map (\<lambda>a. Inr (g a)) xs) = Inr (map g xs)"
  by (induction xs) simp_all

lemma mset_remove_nth:
  "k < length xs \<Longrightarrow> add_mset (xs ! k) (mset (take k xs @ drop (Suc k) xs)) = mset xs"
proof -
  assume "k < length xs"
  then have "xs = take k xs @ xs ! k # drop (Suc k) xs"
    by (rule id_take_nth_drop)
  then have "mset xs = mset (take k xs @ xs ! k # drop (Suc k) xs)"
    by simp
  then show ?thesis by simp
qed

lemma pick_less: "0 < n \<Longrightarrow> pick choices n < n"
  by (simp add: pick_def split: list.splits)

lemma mset_run_pool:
  "mset (run_pool choices f pending) = image_mset (\<lambda>p. (fst p, f (snd p))) (mset pending)"
proof (induction choices f pending rule: run_pool.induct)
  case (1 choices f pending)
  show ?case
  proof (cases "pending = []")
    case True
    then show ?thesis by (subst run_pool.simps) simp
  next
    case False
    define k where "k = pick choices (length pending)"
    define rest where "rest = take k pending @ drop (Suc k) pending"
    from False have k: "k < length pending"
      by (simp add: k_def pick_less)
    have IH: "mset (run_pool (tl choices) f rest) =
                image_mset (\<lambda>p. (fst p, f (snd p))) (mset rest)"
      unfolding rest_def using "1.IH" [OF False k_def] .
    have "run_pool choices f pending =
            (fst (pending ! k), f (snd (pending ! k))) # run_pool (tl choices) f rest"
      unfolding k_def rest_def
      by (subst run_pool.simps) (simp only: False if_False Let_def)
    then have "mset (run_pool choices f pending) =
            image_mset (\<lambda>p. (fst p, f (snd p))) (add_mset (pending ! k) (mset rest))"
      by (simp add: IH)
    also have "add_mset (pending ! k) (mset rest) = mset pending"
      unfolding rest_def using k by (rule mset_remove_nth)
    finally show ?thesis .
  qed
qed

lemma sort_completed:
  assumes "mset completed = mset (zip [0..<length ys] ys)"
  shows "sort_key fst completed = zip [0..<length ys] ys"
proof (rule sort_key_inj_key_eq)
  show "mset completed = mset (zip [0..<length ys] ys)" by (rule assms)
  have "distinct (map fst (zip [0..<length ys] ys))" by simp
  then have "inj_on fst (set (zip [0..<length ys] ys))"
    by (simp only: distinct_map)
  moreover have "set completed = set (zip [0..<length ys] ys)"
    using assms by (rule mset_eq_setD)
  ultimately show "inj_on fst (set completed)" by simp
  show "sorted (map fst (zip [0..<length ys] ys))" by simp
qed

lemma zip_upt_map:
  "map (\<lambda>p. (fst p, f (snd p))) (zip [0..<length xs] xs) = zip [0..<length (map f xs)] (map f xs)"
  by (simp add: zip_map2 case_prod_beta)

lemma sequence_results_no_error:
  "\<forall>r\<in>set rs. \<exists>x. r = Inr x \<Longrightarrow> \<exists>xs. sequence_results rs = Inr xs"
proof (induction rs)
  case Nil
  then show ?case by simp
next
  case (Cons r rs)
  then obtain x where "r = Inr x" by auto
  moreover from Cons obtain xs where "sequence_results rs = Inr xs" by auto
  ultimately show ?case by simp
qed

lemma starmap_eq:
  assumes "\<And>a. f a = Inr (g a)"
  shows "starmap choices f args = Inr (map g args)"
proof -
  let ?completed = "run_pool choices f (zip [0..<length args] args)"
  have m: "mset ?completed = mset (zip [0..<length (map f args)] (map f args))"
    unfolding mset_run_pool zip_upt_map [symmetric] by simp
  then have s: "sort_key fst ?completed = zip [0..<length (map f args)] (map f args)"
    by (rule sort_completed)
  have f: "f = (\<lambda>a. Inr (g a))" using assms by auto
  have ordered: "sequence_results (map snd (sort_key fst ?completed)) = Inr (map g args)"
    unfolding s by (simp add: f sequence_results_Inr)
  have "set ?completed = set (zip [0..<length (map f args)] (map f args))"
    using m by (rule mset_eq_setD)
  then have "\<forall>r\<in>set (map snd ?completed). \<exists>x. r = Inr x"
    using assms by (auto dest!: set_zip_rightD)
  then obtain xs where "sequence_results (map snd ?completed) = Inr xs"
    using sequence_results_no_error by blast
  with ordered show ?thesis
    by (simp add: starmap_def)
qed

lemma generate_parallel_eq:
  "generate_recommendation_parallel choices c =
     Inr (sort_key sort_key_of
            (concat (map (\<lambda>js. map (recommendation_of js) (jobs_table c)) (jobseekers_table c))))"
  by (simp add: generate_recommendation_parallel_def Let_def
        starmap_eq [where g = "\<lambda>js. map (recommendation_of js) (jobs_table c)"]
        process_recommendations_eq)

lemma generate_sequential_eq:
  "generate_recommendation_sequential c =
     Inr (sort_key sort_key_of
            (concat (map (\<lambda>js. map (recommendation_of js) (jobs_table c)) (jobseekers_table c))))"
  by (simp add: generate_recommendation_sequential_def Let_def process_recommendations_eq
        sequence_results_Inr)

subsection \<open>One recommendation per pair; the pool against the sequential map\<close>

lemma recommendation_of_fields:
  "jobseeker_id (recommendation_of js_data job) = seeker_id js_data"
  "jobseeker_name (recommendation_of js_data job) = seeker_name js_data"
  "job_id (recommendation_of js_data job) = jobrow_id job"
  "job_title (recommendation_of js_data job) = jobrow_title job"
  by (simp_all add: recommendation_of_def Let_def)

lemma recommendation_of_score:
  "match_skills (set (str_split CHR '','' (seeker_skills js_data)))
                (set (str_split CHR '','' (jobrow_required_skills job))) =
     Inr (matching_skill_count (recommendation_of js_data job),
          matching_skill_percent (recommendation_of js_data job))"
  by (simp add: match_skills_eq recommendation_of_def Let_def)

lemma length_concat_rows:
  "length (concat (map (\<lambda>js. map (h js) jobs) seekers)) = length seekers * length jobs"
  by (induction seekers) simp_all

text \<open>
  C4: for every jobseeker row and every list of job rows, \<open>process_recommendations\<close>
  returns one recommendation per job, in the order of the jobs and with none left out;
  its identity fields are copied from the jobseeker and the job, and its count and
  percentage are what \<open>match_skills\<close> returns on the two comma-split skill strings. The
  dispatch returns, jobseeker by jobseeker, exactly what \<open>process_recommendations\<close> returns
  for that jobseeker and the whole job list, so flattened it has one recommendation per
  pair; ranking permutes these and neither drops nor adds one.
\<close>

theorem one_recommendation_per_pair:
  "\<exists>recs. process_recommendations js_data job_data = Inr recs \<and>
      length recs = length job_data \<and>
      list_all2 (\<lambda>rec job.
          jobseeker_id rec = seeker_id js_data \<and>
          jobseeker_name rec = seeker_name js_data \<and>
          job_id rec = jobrow_id job \<and>
          job_title rec = jobrow_title job \<and>
          match_skills (set (str_split CHR '','' (seeker_skills js_data)))
                       (set (str_split CHR '','' (jobrow_required_skills job))) =
            Inr (matching_skill_count rec, matching_skill_percent rec)) recs job_data \<and>
      (\<exists>results out.
          starmap choices (\<lambda>js. process_recommendations js (jobs_table c)) (jobseekers_table c) =
            Inr results \<and>
          list_all2 (\<lambda>rs js. process_recommendations js (jobs_table c) = Inr rs)
            results (jobseekers_table c) \<and>
          length (concat results) = length (jobseekers_table c) * length (jobs_table c) \<and>
          generate_recommendation_parallel choices c = Inr out \<and>
          mset out = mset (concat results) \<and>
          length out = length (jobseekers_table c) * length (jobs_table c))"
proof -
  let ?recs = "map (recommendation_of js_data) job_data"
  let ?results = "map (\<lambda>js. map (recommendation_of js) (jobs_table c)) (jobseekers_table c)"
  let ?out = "sort_key sort_key_of (concat ?results)"
  have "process_recommendations js_data job_data = Inr ?recs"
    by (rule process_recommendations_eq)
  moreover have "length ?recs = length job_data" by simp
  moreover have "list_all2 (\<lambda>rec job.
          jobseeker_id rec = seeker_id js_data \<and>
          jobseeker_name rec = seeker_name js_data \<and>
          job_id rec = jobrow_id job \<and>
          job_title rec = jobrow_title job \<and>
          match_skills (set (str_split CHR '','' (seeker_skills js_data)))
                       (set (str_split CHR '','' (jobrow_required_skills job))) =
            Inr (matching_skill_count rec, matching_skill_percent rec)) ?recs job_data"
    by (simp add: list_all2_map1 list_all2_same recommendation_of_fields
          recommendation_of_score)
  moreover have "starmap choices (\<lambda>js. process_recommendations js (jobs_table c))
                   (jobseekers_table c) = Inr ?results"
    by (rule starmap_eq) (rule process_recommendations_eq)
  moreover have "list_all2 (\<lambda>rs js. process_recommendations js (jobs_table c) = Inr rs)
                   ?results (jobseekers_table c)"
    by (simp add: list_all2_map1 list_all2_same process_recommendations_eq)
  moreover have "length (concat ?results) = length (jobseekers_table c) * length (jobs_table c)"
    by (rule length_concat_rows)
  moreover have "generate_recommendation_parallel choices c = Inr ?out"
    by (rule generate_parallel_eq)
  moreover have "mset ?out = mset (concat ?results)"
    by (rule mset_sort)
  moreover have "length ?out = length (jobseekers_table c) * length (jobs_table c)"
    by (simp only: length_sort length_concat_rows)
  ultimately show ?thesis by blast
qed

theorem one_recommendation_per_pair_witness:
  "process_recommendations
     \<lparr>seeker_id = 2, seeker_name = ''Bob'', seeker_skills = ''python''\<rparr>
     (jobs_table example_conn) =
     Inr [\<lparr>jobseeker_id = 2, jobseeker_name = ''Bob'', job_id = 3, job_title = ''Ruby Developer'',
            matching_skill_count = 0, matching_skill_percent = 0\<rparr>,
          \<lparr>jobseeker_id = 2, jobseeker_name = ''Bob'', job_id = 2, job_title = ''Analyst'',
            matching_skill_count = 0, matching_skill_percent = 0\<rparr>,
          \<lparr>jobseeker_id = 2, jobseeker_name = ''Bob'', job_id = 1, job_title = ''Engineer'',
            matching_skill_count = 1, matching_skill_percent = 50\<rparr>] \<and>
   (\<exists>results. starmap [1] (\<lambda>js. process_recommendations js (jobs_table example_conn))
                 (jobseekers_table example_conn) = Inr results \<and>
              mset example_ranked = mset (concat results) \<and> length (concat results) = 6) \<and>
   generate_recommendation_parallel [1] example_conn = Inr example_ranked"
proof -
  have p: "process_recommendations
     \<lparr>seeker_id = 2, seeker_name = ''Bob'', seeker_skills = ''python''\<rparr>
     (jobs_table example_conn) =
     Inr [\<lparr>jobseeker_id = 2, jobseeker_name = ''Bob'', job_id = 3, job_title = ''Ruby Developer'',
            matching_skill_count = 0, matching_skill_percent = 0\<rparr>,
          \<lparr>jobseeker_id = 2, jobseeker_name = ''Bob'', job_id = 2, job_title = ''Analyst'',
            matching_skill_count = 0, matching_skill_percent = 0\<rparr>,
          \<lparr>jobseeker_id = 2, jobseeker_name = ''Bob'', job_id = 1, job_title = ''Engineer'',
            matching_skill_count = 1, matching_skill_percent = 50\<rparr>]"
    by code_simp
  have n: "length (jobseekers_table example_conn) * length (jobs_table example_conn) = 6"
    by (simp add: example_conn_def)
  have g: "generate_recommendation_parallel [1] example_conn = Inr example_ranked"
    by code_simp
  from one_recommendation_per_pair
    [of "\<lparr>seeker_id = 2, seeker_name = ''Bob'', seeker_skills = ''python''\<rparr>"
        "jobs_table example_conn" "[1]" example_conn]
  obtain results out where
    "starmap [1] (\<lambda>js. process_recommendations js (jobs_table example_conn))
       (jobseekers_table example_conn) = Inr results"
    "length (concat results) = length (jobseekers_table example_conn) * length (jobs_table example_conn)"
    "generate_recommendation_parallel [1] example_conn = Inr out"
    "mset out = mset (concat results)"
    by blast
  with g n have "\<exists>results. starmap [1] (\<lambda>js. process_recommendations js (jobs_table example_conn))
                 (jobseekers_table example_conn) = Inr results \<and>
              mset example_ranked = mset (concat results) \<and> length (concat results) = 6"
    by auto
  with p g show ?thesis by blast
qed

text \<open>
  C3: whatever order the pool completes its tasks in, \<open>generate_recommendation_parallel\<close>
  returns what the sequential map over the same jobseekers, followed by the same
  flattening and sort, returns; and that is a result, not an error.
\<close>

theorem parallel_is_sequential:
  "generate_recommendation_parallel choices c = generate_recommendation_sequential c \<and>
   (\<exists>out. generate_recommendation_sequential c = Inr out)"
  by (simp add: generate_parallel_eq generate_sequential_eq)

theorem parallel_is_sequential_witness:
  "generate_recommendation_parallel [1, 0] example_conn = Inr example_ranked \<and>
   generate_recommendation_sequential example_conn = Inr example_ranked"
proof -
  have "generate_recommendation_sequential example_conn = Inr example_ranked"
    by code_simp
  with parallel_is_sequential [of "[1, 0]" example_conn] show ?thesis by simp
qed

subsection \<open>Ranking\<close>

lemma sorted_map_nth:
  assumes "sorted (map f xs)" and "i < j" and "j < length xs"
  shows "f (xs ! i) \<le> f (xs ! j)"
proof -
  from assms have "map f xs ! i \<le> map f xs ! j"
    by (intro sorted_nth_mono) simp_all
  with assms show ?thesis by simp
qed

text \<open>
  C2: the list \<open>generate_recommendation_parallel\<close> returns is ordered by the composite
  key: of two entries the earlier one has the smaller jobseeker id, or the same jobseeker
  id and the larger percentage, or the same jobseeker id and percentage and a job id that
  is not larger. In particular two jobs of one jobseeker with equal percentage appear in
  ascending order of job id.
\<close>

theorem ranked_by_composite_key:
  "\<exists>out. generate_recommendation_parallel choices c = Inr out \<and>
     sorted (map sort_key_of out) \<and>
     (\<forall>i j. i < j \<and> j < length out \<longrightarrow>
        jobseeker_id (out ! i) < jobseeker_id (out ! j) \<or>
        jobseeker_id (out ! i) = jobseeker_id (out ! j) \<and>
          (matching_skill_percent (out ! j) < matching_skill_percent (out ! i) \<or>
           matching_skill_percent (out ! i) = matching_skill_percent (out ! j) \<and>
             job_id (out ! i) \<le> job_id (out ! j))) \<and>
     (\<forall>i j. i < j \<and> j < length out \<and>
        jobseeker_id (out ! i) = jobseeker_id (out ! j) \<and>
        matching_skill_percent (out ! i) = matching_skill_percent (out ! j) \<longrightarrow>
        job_id (out ! i) \<le> job_id (out ! j))"
proof -
  define out where "out = sort_key sort_key_of
    (concat (map (\<lambda>js. map (recommendation_of js) (jobs_table c)) (jobseekers_table c)))"
  have gen: "generate_recommendation_parallel choices c = Inr out"
    unfolding out_def by (rule generate_parallel_eq)
  have srt: "sorted (map sort_key_of out)"
    unfolding out_def by (rule sorted_sort_key)
  have key: "sort_key_of (out ! i) \<le> sort_key_of (out ! j)" if "i < j" "j < length out" for i j
    using srt that by (rule sorted_map_nth)
  have lex: "jobseeker_id (out ! i) < jobseeker_id (out ! j) \<or>
        jobseeker_id (out ! i) = jobseeker_id (out ! j) \<and>
          (matching_skill_percent (out ! j) < matching_skill_percent (out ! i) \<or>
           matching_skill_percent (out ! i) = matching_skill_percent (out ! j) \<and>
             job_id (out ! i) \<le> job_id (out ! j))"
    if "i < j" "j < length out" for i j
    using key [OF that] by (auto simp: sort_key_of_def less_eq_prod_def)
  have tie: "job_id (out ! i) \<le> job_id (out ! j)"
    if "i < j" "j < length out" "jobseeker_id (out ! i) = jobseeker_id (out ! j)"
       "matching_skill_percent (out ! i) = matching_skill_percent (out ! j)" for i j
    using lex [OF that(1,2)] that(3,4) by auto
  from gen srt lex tie show ?thesis by blast
qed

theorem ranked_by_composite_key_witness:
  "generate_recommendation_parallel [1] example_conn = Inr example_ranked \<and>
   jobseeker_id (example_ranked ! 0) = jobseeker_id (example_ranked ! 1) \<and>
   matching_skill_percent (example_ranked ! 0) = matching_skill_percent (example_ranked ! 1) \<and>
   job_id (example_ranked ! 0) \<le> job_id (example_ranked ! 1) \<and>
   sorted (map sort_key_of example_ranked)"
proof -
  have e: "generate_recommendation_parallel [1] example_conn = Inr example_ranked"
    by code_simp
  have s: "jobseeker_id (example_ranked ! 0) = jobseeker_id (example_ranked ! 1)"
    by (simp add: example_ranked_def)
  have p: "matching_skill_percent (example_ranked ! 0) = matching_skill_percent (example_ranked ! 1)"
    by (simp add: example_ranked_def)
  have l: "(0::nat) < 1 \<and> 1 < length example_ranked"
    by (simp add: example_ranked_def)
  from ranked_by_composite_key [of "[1]" example_conn] e s p l
  show ?thesis by auto
qed

subsection \<open>Independence of the input order\<close>

lemma mset_concat_rows:
  "mset (concat (map (\<lambda>js. map (h js) jobs) seekers)) =
     (\<Sum>js\<in>#mset seekers. image_mset (h js) (mset jobs))"
  by (induction seekers) simp_all

lemma mset_rows_permuted:
  assumes "mset seekers' = mset seekers" and "mset jobs' = mset jobs"
  shows "mset (concat (map (\<lambda>js. map (h js) jobs') seekers')) =
         mset (concat (map (\<lambda>js. map (h js) jobs) seekers))"
  by (simp only: mset_concat_rows assms)

lemma sort_key_of_inj:
  assumes "distinct (map seeker_id seekers)" and "distinct (map jobrow_id jobs)"
  shows "inj_on sort_key_of
           (set (concat (map (\<lambda>js. map (recommendation_of js) jobs) seekers)))"
proof (rule inj_onI)
  fix x y
  assume x: "x \<in> set (concat (map (\<lambda>js. map (recommendation_of js) jobs) seekers))"
    and y: "y \<in> set (concat (map (\<lambda>js. map (recommendation_of js) jobs) seekers))"
    and eq: "sort_key_of x = sort_key_of y"
  from x obtain js job where xj: "js \<in> set seekers" "job \<in> set jobs"
    and xr: "x = recommendation_of js job"
    by auto
  from y obtain js' job' where yj: "js' \<in> set seekers" "job' \<in> set jobs"
    and yr: "y = recommendation_of js' job'"
    by auto
  from eq have ids: "seeker_id js = seeker_id js'" "jobrow_id job = jobrow_id job'"
    unfolding xr yr by (simp_all add: sort_key_of_def recommendation_of_fields)
  from assms(1) have "inj_on seeker_id (set seekers)" by (simp only: distinct_map)
  with ids(1) xj(1) yj(1) have "js = js'" by (auto dest: inj_onD)
  moreover from assms(2) have "inj_on jobrow_id (set jobs)" by (simp only: distinct_map)
  with ids(2) xj(2) yj(2) have "job = job'" by (auto dest: inj_onD)
  ultimately show "x = y" unfolding xr yr by simp
qed

text \<open>
  C8: when the jobseeker ids are pairwise distinct and the job ids are pairwise distinct,
  permuting the jobseeker rows and the job rows (and running the pool under any other
  schedule) leaves the set of recommendations the dispatch produces unchanged, and the
  ranked output is the same list.
\<close>

theorem dispatch_order_independent:
  assumes "distinct (map seeker_id (jobseekers_table c))"
    and "distinct (map jobrow_id (jobs_table c))"
    and "mset (jobseekers_table c') = mset (jobseekers_table c)"
    and "mset (jobs_table c') = mset (jobs_table c)"
  shows "\<exists>results results' out.
           starmap choices (\<lambda>js. process_recommendations js (jobs_table c)) (jobseekers_table c) =
             Inr results \<and>
           starmap choices' (\<lambda>js. process_recommendations js (jobs_table c')) (jobseekers_table c') =
             Inr results' \<and>
           set (concat results') = set (concat results) \<and>
           generate_recommendation_parallel choices c = Inr out \<and>
           generate_recommendation_parallel choices' c' = Inr out"
proof -
  let ?results = "map (\<lambda>js. map (recommendation_of js) (jobs_table c)) (jobseekers_table c)"
  let ?results' = "map (\<lambda>js. map (recommendation_of js) (jobs_table c')) (jobseekers_table c')"
  have r: "starmap choices (\<lambda>js. process_recommendations js (jobs_table c)) (jobseekers_table c) =
             Inr ?results"
    by (rule starmap_eq) (rule process_recommendations_eq)
  have r': "starmap choices' (\<lambda>js. process_recommendations js (jobs_table c')) (jobseekers_table c') =
             Inr ?results'"
    by (rule starmap_eq) (rule process_recommendations_eq)
  have m: "mset (concat ?results') = mset (concat ?results)"
    using assms(3,4) by (rule mset_rows_permuted)
  then have s: "set (concat ?results') = set (concat ?results)"
    by (rule mset_eq_setD)
  have inj: "inj_on sort_key_of (set (concat ?results'))"
    unfolding s using assms(1,2) by (rule sort_key_of_inj)
  have "sort_key sort_key_of (concat ?results') = sort_key sort_key_of (concat ?results)"
  proof (rule sort_key_inj_key_eq)
    show "mset (concat ?results') = mset (sort_key sort_key_of (concat ?results))"
      using m by simp
    show "inj_on sort_key_of (set (concat ?results'))" by (rule inj)
    show "sorted (map sort_key_of (sort_key sort_key_of (concat ?results)))"
      by (rule sorted_sort_key)
  qed
  then have "generate_recommendation_parallel choices' c' =
               Inr (sort_key sort_key_of (concat ?results))"
    by (simp only: generate_parallel_eq)
  moreover have "generate_recommendation_parallel choices c =
               Inr (sort_key sort_key_of (concat ?results))"
    by (rule generate_parallel_eq)
  ultimately show ?thesis using r r' s by blast
qed

theorem dispatch_order_independent_witness:
  "distinct (map seeker_id (jobseekers_table example_conn)) \<and>
   distinct (map jobrow_id (jobs_table example_conn)) \<and>
   mset (jobseekers_table example_conn_shuffled) = mset (jobseekers_table example_conn) \<and>
   mset (jobs_table example_conn_shuffled) = mset (jobs_table example_conn) \<and>
   jobseekers_table example_conn_shuffled \<noteq> jobseekers_table example_conn \<and>
   jobs_table example_conn_shuffled \<noteq> jobs_table example_conn \<and>
   generate_recommendation_parallel [1] example_conn = Inr example_ranked \<and>
   generate_recommendation_parallel [0, 5] example_conn_shuffled = Inr example_ranked"
proof -
  have h1: "distinct (map seeker_id (jobseekers_table example_conn))"
    by (simp add: example_conn_def)
  have h2: "distinct (map jobrow_id (jobs_table example_conn))"
    by (simp add: example_conn_def)
  have h3: "mset (jobseekers_table example_conn_shuffled) = mset (jobseekers_table example_conn)"
    by code_simp
  have h4: "mset (jobs_table example_conn_shuffled) = mset (jobs_table example_conn)"
    by code_simp
  have n1: "jobseekers_table example_conn_shuffled \<noteq> jobseekers_table example_conn"
    by (simp add: example_conn_def example_conn_shuffled_def)
  have n2: "jobs_table example_conn_shuffled \<noteq> jobs_table example_conn"
    by (simp add: example_conn_def example_conn_shuffled_def)
  have e: "generate_recommendation_parallel [1] example_conn = Inr example_ranked"
    by code_simp
  from dispatch_order_independent [OF h1 h2 h3 h4, of "[1]" "[0, 5]"] e
  have "generate_recommendation_parallel [0, 5] example_conn_shuffled = Inr example_ranked"
    by auto
  with h1 h2 h3 h4 n1 n2 e show ?thesis by blast
qed

end
